theory Spec2Isabelle
  imports
    Complex_Main
    "HOL-Library.Char_ord"
    "HOL-Library.List_Lexorder"
    "HOL-Library.Multiset"
    "HOL-Library.Product_Lexorder"
begin

section \<open>Exceptions of the Python source\<close>

text \<open>
  Every exception the modelled code can raise is a value. A computation that may raise
  returns \<open>py_error + 'a\<close>, with \<open>Inl\<close> for the exception. \<open>OSError\<close> stands for
  every failure of \<open>open\<close>, \<open>read\<close> or \<open>write\<close> on a file, \<open>ClientError\<close> and
  \<open>TimeoutError\<close> for the failures of the HTTP request, and \<open>JSONDecodeError\<close> for
  every failure to get the field out of the body of the answer.
\<close>

datatype py_error =
  IndexError | OverflowError | ValueError | OSError | ClientError | TimeoutError | JSONDecodeError

section \<open>Active-line lookup: \<open>bisect.bisect_right\<close> and the indexing of line 93\<close>

text \<open>
  The loop of \<open>bisect.bisect_right(a, x)\<close> with \<open>lo = 0\<close> and \<open>hi = len(a)\<close>:
  \<^verbatim>\<open>
    while lo < hi:
        mid = (lo + hi) // 2
        if x < a[mid]: hi = mid
        else: lo = mid + 1
    return lo
  \<close>
  The read \<open>a[mid]\<close> raises IndexError out of range.
\<close>

function bisect_loop :: "'a::linorder list \<Rightarrow> 'a \<Rightarrow> nat \<Rightarrow> nat \<Rightarrow> py_error + nat" where
  "bisect_loop a x lo hi =
     (if lo < hi then
        (let mid = (lo + hi) div 2 in
         if mid < length a then
           (if x < a ! mid then bisect_loop a x lo mid
            else bisect_loop a x (mid + 1) hi)
         else Inl IndexError)
      else Inr lo)"
  by pat_completeness auto
termination
  by (relation "measure (\<lambda>(a, x, lo, hi). hi - lo)") auto

declare bisect_loop.simps [simp del]

definition bisect_right :: "'a::linorder list \<Rightarrow> 'a \<Rightarrow> py_error + nat" where
  "bisect_right a x = bisect_loop a x 0 (length a)"

text \<open>
  Lines 92 and 93 of \<open>main_loop\<close>:
  \<^verbatim>\<open>
    idx = bisect.bisect_right(ts_list, true_pos)
    new_lyric = parsed_lyrics[idx-1][1] if idx > 0 else "..."
  \<close>
  The index \<open>idx - 1\<close> is only read when \<open>idx > 0\<close>, so it is never negative;
  beyond the end of \<open>parsed_lyrics\<close> Python raises IndexError.
\<close>

definition active_line :: "'a::linorder list \<Rightarrow> ('a \<times> string) list \<Rightarrow> 'a \<Rightarrow> py_error + string" where
  "active_line ts_list parsed_lyrics true_pos =
     (case bisect_right ts_list true_pos of
        Inl e \<Rightarrow> Inl e
      | Inr idx \<Rightarrow>
          if idx > 0 then
            (if idx - 1 < length parsed_lyrics then Inr (snd (parsed_lyrics ! (idx - 1)))
             else Inl IndexError)
          else Inr ''...'')"

section \<open>Strings and numbers of the Python source\<close>

text \<open>
  A Python \<open>str\<close> is modelled as a \<open>string\<close>, each \<open>char\<close> standing for the code
  point of the same number (0 to 255); code points beyond 255 are outside the model.
  On this range the classes below are those of CPython: \<open>\d\<close> of \<open>re\<close> matches the
  ten ASCII digits, \<open>str.strip()\<close> removes the code points 9 to 13, 28 to 32, 133 and 160,
  \<open>str.splitlines()\<close> breaks at 10 to 13, 28 to 30 and 133, and \<open>str.lower()\<close> maps
  65 to 90 and 192 to 222 (but 215) to the code point 32 above.

  A Python \<open>float\<close> is modelled as the rational number it denotes: rounding to binary64
  is not modelled, and neither is the value \<open>inf\<close> that \<open>float()\<close> returns for a decimal
  numeral beyond the binary64 range. The exceptions of the numeric conversions are
  modelled: \<open>int(s)\<close> raises ValueError for more than 4300 digits (the default limit of
  CPython since 3.11), and adding a \<open>float\<close> to an \<open>int\<close> converts the \<open>int\<close>, which raises
  OverflowError from \<open>2^1024 - 2^970\<close> on (the first integer that rounds beyond the
  largest binary64 number).
\<close>

definition is_digit :: "char \<Rightarrow> bool" where
  "is_digit c \<longleftrightarrow> c \<in> set ''0123456789''"

definition is_space :: "char \<Rightarrow> bool" where
  "is_space c \<longleftrightarrow> (of_char c :: nat) \<in> {9, 10, 11, 12, 13, 28, 29, 30, 31, 32, 133, 160}"

definition is_linebreak :: "char \<Rightarrow> bool" where
  "is_linebreak c \<longleftrightarrow> (of_char c :: nat) \<in> {10, 11, 12, 13, 28, 29, 30, 133}"

definition lower_char :: "char \<Rightarrow> char" where
  "lower_char c =
     (let n = (of_char c :: nat)
      in if (65 \<le> n \<and> n \<le> 90) \<or> (192 \<le> n \<and> n \<le> 222 \<and> n \<noteq> 215) then char_of (n + 32) else c)"

definition lower :: "string \<Rightarrow> string" where
  "lower s = map lower_char s"

definition replace_char :: "char \<Rightarrow> char \<Rightarrow> string \<Rightarrow> string" where
  \<comment> \<open>\<open>s.replace(old, new)\<close> for one-character \<open>old\<close> and \<open>new\<close>\<close>
  "replace_char old new s = map (\<lambda>c. if c = old then new else c) s"

definition strip :: "string \<Rightarrow> string" where
  "strip s = rev (dropWhile is_space (rev (dropWhile is_space s)))"

fun contains :: "string \<Rightarrow> string \<Rightarrow> bool" where
  \<comment> \<open>\<open>sub in s\<close>\<close>
  "contains sub [] = (sub = [])"
| "contains sub (c # cs) = (take (length sub) (c # cs) = sub \<or> contains sub cs)"

text \<open>
  \<open>str.splitlines()\<close>: the text is cut at every line boundary, \<open>\r\n\<close> counting as
  one; the boundary is dropped, and no empty last line is produced when the text ends
  with a boundary. The first argument is the line read so far, reversed.
\<close>

fun splitlines_from :: "string \<Rightarrow> string \<Rightarrow> string list" where
  "splitlines_from acc [] = (if acc = [] then [] else [rev acc])"
| "splitlines_from acc (c # cs) =
     (if c = CHR 0x0D then
        (case cs of
           [] \<Rightarrow> [rev acc]
         | d # ds \<Rightarrow> if d = CHR 0x0A then rev acc # splitlines_from [] ds
                     else rev acc # splitlines_from [] (d # ds))
      else if is_linebreak c then rev acc # splitlines_from [] cs
      else splitlines_from (c # acc) cs)"

definition splitlines :: "string \<Rightarrow> string list" where
  "splitlines s = splitlines_from [] s"

definition digit_val :: "char \<Rightarrow> nat" where
  "digit_val c = of_char c - 48"

definition nat_of_digits :: "string \<Rightarrow> nat" where
  "nat_of_digits ds = foldl (\<lambda>n c. 10 * n + digit_val c) 0 ds"

definition py_int :: "string \<Rightarrow> py_error + int" where
  \<comment> \<open>\<open>int(s)\<close> for a string of digits\<close>
  "py_int ds = (if length ds > 4300 then Inl ValueError else Inr (int (nat_of_digits ds)))"

definition py_float :: "string \<Rightarrow> string \<Rightarrow> rat" where
  \<comment> \<open>\<open>float(s)\<close> for \<open>s\<close> the digits \<open>a\<close>, a dot and the digits \<open>b\<close>\<close>
  "py_float a b = of_nat (nat_of_digits a) + of_nat (nat_of_digits b) / 10 ^ length b"

definition float_of_int :: "int \<Rightarrow> py_error + rat" where
  \<comment> \<open>the conversion of an \<open>int\<close> operand in mixed arithmetic\<close>
  "float_of_int n = (if 2 ^ 1024 - 2 ^ 970 \<le> \<bar>n\<bar> then Inl OverflowError else Inr (of_int n))"

definition int_add_float :: "int \<Rightarrow> rat \<Rightarrow> py_error + rat" where
  \<comment> \<open>\<open>n + x\<close> for an \<open>int\<close> \<open>n\<close> and a \<open>float\<close> \<open>x\<close>\<close>
  "int_add_float n x = (case float_of_int n of Inl e \<Rightarrow> Inl e | Inr y \<Rightarrow> Inr (y + x))"

section \<open>\<open>parse_lrc\<close>\<close>

text \<open>
  \<open>pattern.match(line)\<close> for the pattern \<open>\[(\d+):(\d+\.\d+)\](.*)\<close>, anchored at the
  start of the line. Each \<open>\d+\<close> is greedy and is followed in the pattern by a character
  that is no digit, so the only run of digits that can match is the longest one, and the
  matcher below never has to backtrack. \<open>.\<close> matches every character but the newline.
  The result is \<open>(group(1), a, b, group(3))\<close> where \<open>group(2)\<close> is \<open>a\<close>, a dot and \<open>b\<close>.
\<close>

definition lrc_match :: "string \<Rightarrow> (string \<times> string \<times> string \<times> string) option" where
  "lrc_match line =
     (case line of
        [] \<Rightarrow> None
      | c0 # r0 \<Rightarrow>
          if c0 \<noteq> CHR ''['' then None
          else let m = takeWhile is_digit r0 in
            if m = [] then None
            else (case dropWhile is_digit r0 of
              [] \<Rightarrow> None
            | c1 # r1 \<Rightarrow>
                if c1 \<noteq> CHR '':'' then None
                else let a = takeWhile is_digit r1 in
                  if a = [] then None
                  else (case dropWhile is_digit r1 of
                    [] \<Rightarrow> None
                  | c2 # r2 \<Rightarrow>
                      if c2 \<noteq> CHR ''.'' then None
                      else let b = takeWhile is_digit r2 in
                        if b = [] then None
                        else (case dropWhile is_digit r2 of
                          [] \<Rightarrow> None
                        | c3 # r3 \<Rightarrow>
                            if c3 \<noteq> CHR '']'' then None
                            else Some (m, a, b, takeWhile (\<lambda>c. c \<noteq> CHR 0x0A) r3)))))"

text \<open>
  The body of the \<open>for\<close> loop, lines 42 to 45: nothing for a line that does not match,
  otherwise the entry \<open>((m * 60) + s, text)\<close>. The tuple of line 44 is evaluated from
  left to right, so \<open>int\<close> raises first.
\<close>

definition line_entry :: "string \<Rightarrow> py_error + (rat \<times> string) option" where
  "line_entry line =
     (case lrc_match line of
        None \<Rightarrow> Inr None
      | Some (g1, a, b, g3) \<Rightarrow>
          (case py_int g1 of
             Inl e \<Rightarrow> Inl e
           | Inr m \<Rightarrow>
               (case int_add_float (m * 60) (py_float a b) of
                  Inl e \<Rightarrow> Inl e
                | Inr ts \<Rightarrow> Inr (Some (ts, strip g3)))))"

fun parse_loop :: "string list \<Rightarrow> (rat \<times> string) list \<Rightarrow> py_error + (rat \<times> string) list" where
  "parse_loop [] lyrics_data = Inr lyrics_data"
| "parse_loop (line # lines) lyrics_data =
     (case line_entry line of
        Inl e \<Rightarrow> Inl e
      | Inr None \<Rightarrow> parse_loop lines lyrics_data
      | Inr (Some entry) \<Rightarrow> parse_loop lines (lyrics_data @ [entry]))"

text \<open>
  \<open>sorted(lyrics_data)\<close> sorts the tuples \<open>(timestamp, text)\<close> with Python's order on
  tuples: by timestamp, and by text (code point by code point) when the timestamps are
  equal. That is the lexicographic order of pairs and of lists, and \<open>sort\<close>, a stable
  sort as Python's, returns the one sorted arrangement.
\<close>

definition parse_lrc :: "string \<Rightarrow> py_error + (rat \<times> string) list" where
  "parse_lrc lrc_text =
     (case parse_loop (splitlines lrc_text) [] of
        Inl e \<Rightarrow> Inl e
      | Inr lyrics_data \<Rightarrow> Inr (sort lyrics_data))"



section \<open>\<open>fetch_lyrics\<close>: the cache directory and the lyrics service\<close>

text \<open>
  The cache directory is a map from paths to files. A path that exists holds either the
  characters of a text file or something that \<open>open(path, 'r', encoding='utf-8')\<close> and
  \<open>read()\<close> fail on (a directory, bytes that are not UTF-8, a file that may not be read).
  \<open>cache_writable\<close> tells for which paths \<open>open(path, 'w')\<close> succeeds.
  \<open>http_requests\<close> records the requests sent to the service, in order; the code does not
  read it.
\<close>

datatype file_node = Text_file string | Unreadable

record lrclib_request =
  artist_name :: string
  track_name :: string
  album_name :: string
  duration :: rat

record environment =
  cache_files :: "string \<rightharpoonup> file_node"
  cache_writable :: "string \<Rightarrow> bool"
  http_requests :: "lrclib_request list"

text \<open>
  What the service answers to a request: no answer (a connection error or the timeout of
  10 seconds, both exceptions of \<open>session.get\<close>), or a status with a body. The body is
  either unusable (\<open>resp.json()\<close> or \<open>data.get\<close> raises) or a JSON object, given by the
  value of \<open>data.get("syncedLyrics")\<close>: \<open>None\<close> for a missing or null field, or a string.
\<close>

datatype http_body = Unusable_body | Synced "string option"

datatype http_result = Network_error | Timeout | Response nat http_body

text \<open>
  Both files are opened in text mode with the default \<open>newline=None\<close>. The program runs
  on Windows (it imports \<open>winrt\<close>), where \<open>os.linesep\<close> is \<open>\r\n\<close>: writing turns every
  \<open>\n\<close> into \<open>\r\n\<close>, and reading turns every \<open>\r\n\<close> and every other \<open>\r\<close> into \<open>\n\<close>.
\<close>

definition write_text :: "string \<Rightarrow> string" where
  "write_text s = concat (map (\<lambda>c. if c = CHR 0x0A then [CHR 0x0D, CHR 0x0A] else [c]) s)"

fun read_text :: "string \<Rightarrow> string" where
  "read_text [] = []"
| "read_text [c] = [if c = CHR 0x0D then CHR 0x0A else c]"
| "read_text (c # d # ds) =
     (if c = CHR 0x0D \<and> d = CHR 0x0A then CHR 0x0A # read_text ds
      else (if c = CHR 0x0D then CHR 0x0A else c) # read_text (d # ds))"

definition CACHE_DIR :: string where
  "CACHE_DIR = ''lyrics_cache''"

definition cache_filename :: "string \<Rightarrow> string \<Rightarrow> string" where
  \<comment> \<open>line 15\<close>
  "cache_filename artist title =
     lower (replace_char (CHR '' '') (CHR ''_'') (artist @ ''_'' @ title)) @ ''.lrc''"

definition cache_filepath :: "string \<Rightarrow> string \<Rightarrow> string" where
  \<comment> \<open>line 16; \<open>os.path.join\<close> of a directory and a plain file name, on Windows\<close>
  "cache_filepath artist title = CACHE_DIR @ [CHR 0x5C] @ cache_filename artist title"

text \<open>
  The \<open>try\<close> block, lines 25 to 33: its value is \<open>Inl\<close> for an exception raised inside
  it, \<open>Inr (Some lyrics)\<close> for the \<open>return lyrics\<close> of line 33, and \<open>Inr None\<close> when
  control leaves the block at its end.
\<close>

definition try_request ::
  "(lrclib_request \<Rightarrow> http_result) \<Rightarrow> string \<Rightarrow> lrclib_request \<Rightarrow> environment
     \<Rightarrow> (py_error + string option) \<times> environment" where
  "try_request lrclib filepath params env =
     (let env1 = env\<lparr>http_requests := http_requests env @ [params]\<rparr> in
      case lrclib params of
        Network_error \<Rightarrow> (Inl ClientError, env1)
      | Timeout \<Rightarrow> (Inl TimeoutError, env1)
      | Response status body \<Rightarrow>
          if status = 200 then
            (case body of
               Unusable_body \<Rightarrow> (Inl JSONDecodeError, env1)
             | Synced None \<Rightarrow> (Inr None, env1)
             | Synced (Some lyrics) \<Rightarrow>
                 if lyrics \<noteq> [] then
                   (if cache_writable env1 filepath then
                      (Inr (Some lyrics),
                       env1\<lparr>cache_files := (cache_files env1)(filepath \<mapsto> Text_file (write_text lyrics))\<rparr>)
                    else (Inl OSError, env1))
                 else (Inr None, env1))
          else (Inr None, env1))"

text \<open>
  \<open>fetch_lyrics\<close>: the cache check of lines 18 to 20 is outside the \<open>try\<close>, so a failing
  read raises to the caller; the bare \<open>except\<close> of line 34 turns every exception of the
  \<open>try\<close> block into \<open>None\<close>, and line 35 returns \<open>None\<close> after the block.
\<close>

definition fetch_lyrics ::
  "(lrclib_request \<Rightarrow> http_result) \<Rightarrow> string \<Rightarrow> string \<Rightarrow> string \<Rightarrow> rat \<Rightarrow> environment
     \<Rightarrow> (py_error + string option) \<times> environment" where
  "fetch_lyrics lrclib artist title album dur env =
     (let filepath = cache_filepath artist title in
      case cache_files env filepath of
        Some (Text_file content) \<Rightarrow> (Inr (Some (read_text content)), env)
      | Some Unreadable \<Rightarrow> (Inl OSError, env)
      | None \<Rightarrow>
          (let params = \<lparr>artist_name = artist, track_name = title,
                          album_name = album, duration = dur\<rparr> in
           case try_request lrclib filepath params env of
             (Inl e, env') \<Rightarrow> (Inr None, env')
           | (Inr r, env') \<Rightarrow> (Inr r, env')))"

section \<open>\<open>LyricsWorker.main_loop\<close>\<close>

text \<open>
  What one iteration of the loop reads from outside: the current media session, if any
  (application id, media properties, timeline and playback status), the clock reading
  of line 90, and the lyrics service as it answers during this iteration. A
  \<open>timedelta\<close> is its number of microseconds, a \<open>datetime\<close> the number of microseconds
  since the epoch, and \<open>total_seconds()\<close> divides by a million.
\<close>

record media_session =
  source_app_user_model_id :: string
  title :: string
  artist :: string
  album_title :: string
  position :: int
  end_time :: int
  last_updated_time :: int
  playback_status :: int

record poll =
  session :: "media_session option"
  now :: int
  lrclib :: "lrclib_request \<Rightarrow> http_result"

definition total_seconds :: "int \<Rightarrow> rat" where
  "total_seconds us = of_int us / 1000000"

text \<open>
  The local variables of \<open>main_loop\<close>, with the environment, the texts emitted through
  the signal \<open>lyric_changed\<close> so far (in order), and the number of calls of
  \<open>fetch_lyrics\<close> so far; the code reads neither of the last two.
\<close>

record loop_state =
  last_id :: string
  parsed_lyrics :: "(rat \<times> string) list"
  ts_list :: "rat list"
  curr_text :: string
  is_fetching :: bool
  env :: environment
  emitted :: "string list"
  fetch_calls :: nat

definition initial_state :: "environment \<Rightarrow> loop_state" where
  \<comment> \<open>lines 60 and 61\<close>
  "initial_state e =
     \<lparr>last_id = [], parsed_lyrics = [], ts_list = [], curr_text = [], is_fetching = False,
      env = e, emitted = [], fetch_calls = 0\<rparr>"

text \<open>
  An iteration ends in a new state (\<open>Inr\<close>) or in an exception that leaves the loop
  (\<open>Inl\<close>), with the state at the moment it is raised.
\<close>

type_synonym outcome = "(py_error \<times> loop_state) + loop_state"

definition state_of :: "outcome \<Rightarrow> loop_state" where
  "state_of r = (case r of Inl (e, st) \<Rightarrow> st | Inr st \<Rightarrow> st)"

definition emit :: "string \<Rightarrow> loop_state \<Rightarrow> loop_state" where
  "emit text st = st\<lparr>emitted := emitted st @ [text]\<rparr>"

definition wrong_source :: "loop_state \<Rightarrow> loop_state" where
  \<comment> \<open>lines 69 to 72\<close>
  "wrong_source st =
     (let st1 = (if curr_text st \<noteq> ''Not Spotify''
                 then (emit ''Not Spotify'' st)\<lparr>curr_text := ''Not Spotify''\<rparr> else st)
      in st1\<lparr>last_id := [], parsed_lyrics := []\<rparr>)"

definition no_session :: "loop_state \<Rightarrow> loop_state" where
  \<comment> \<open>lines 98 to 101\<close>
  "no_session st =
     (let st1 = (if curr_text st \<noteq> ''Waiting for Spotify...''
                 then (emit ''Waiting for Spotify...'' st)\<lparr>curr_text := ''Waiting for Spotify...''\<rparr>
                 else st)
      in st1\<lparr>last_id := [], parsed_lyrics := [], ts_list := []\<rparr>)"

definition song_id :: "media_session \<Rightarrow> string" where
  \<comment> \<open>line 78\<close>
  "song_id s = title s @ ''-'' @ artist s"

text \<open>
  Lines 80 to 86. \<open>parse_lrc(raw) if raw else []\<close> parses a text that is neither \<open>None\<close>
  nor empty.
\<close>

definition track_change :: "poll \<Rightarrow> media_session \<Rightarrow> loop_state \<Rightarrow> outcome" where
  "track_change p s st =
     (if song_id s \<noteq> last_id st \<and> \<not> is_fetching st then
        (let st1 = emit ''Searching...'' (st\<lparr>last_id := song_id s, is_fetching := True\<rparr>);
             st2 = st1\<lparr>fetch_calls := fetch_calls st1 + 1\<rparr>
         in case fetch_lyrics (lrclib p) (artist s) (title s) (album_title s)
                   (total_seconds (end_time s)) (env st2) of
              (Inl e, env') \<Rightarrow> Inl (e, st2\<lparr>env := env'\<rparr>)
            | (Inr raw, env') \<Rightarrow>
                (case (case raw of
                         None \<Rightarrow> Inr []
                       | Some text \<Rightarrow> if text \<noteq> [] then parse_lrc text else Inr []) of
                   Inl e \<Rightarrow> Inl (e, st2\<lparr>env := env'\<rparr>)
                 | Inr lyrics \<Rightarrow>
                     Inr (st2\<lparr>env := env', parsed_lyrics := lyrics, ts_list := map fst lyrics,
                              is_fetching := False, curr_text := []\<rparr>)))
      else Inr st)"

definition true_pos :: "poll \<Rightarrow> media_session \<Rightarrow> rat" where
  \<comment> \<open>lines 90 and 91\<close>
  "true_pos p s =
     (let time_diff = total_seconds (now p - last_updated_time s)
      in total_seconds (position s) + time_diff)"

definition position_check :: "poll \<Rightarrow> media_session \<Rightarrow> loop_state \<Rightarrow> outcome" where
  \<comment> \<open>lines 88 to 96\<close>
  "position_check p s st =
     (if playback_status s = 4 then
        (case active_line (ts_list st) (parsed_lyrics st) (true_pos p s) of
           Inl e \<Rightarrow> Inl (e, st)
         | Inr new_lyric \<Rightarrow>
             if new_lyric \<noteq> curr_text st
             then Inr ((emit new_lyric st)\<lparr>curr_text := new_lyric\<rparr>)
             else Inr st)
      else Inr st)"

definition tick :: "poll \<Rightarrow> loop_state \<Rightarrow> outcome" where
  \<comment> \<open>the body of \<open>while True\<close>, lines 64 to 102\<close>
  "tick p st =
     (case session p of
        None \<Rightarrow> Inr (no_session st)
      | Some s \<Rightarrow>
          if \<not> contains ''spotify'' (lower (source_app_user_model_id s))
          then Inr (wrong_source st)
          else (case track_change p s st of
                  Inl x \<Rightarrow> Inl x
                | Inr st1 \<Rightarrow> position_check p s st1))"

text \<open>
  The loop never ends by itself. \<open>run\<close> gives the outcome of its first iterations, one
  for each element of the list of what they read.
\<close>

fun run :: "poll list \<Rightarrow> loop_state \<Rightarrow> outcome" where
  "run [] st = Inr st"
| "run (p # ps) st = (case tick p st of Inl x \<Rightarrow> Inl x | Inr st' \<Rightarrow> run ps st')"

section \<open>Invariant of the emitted texts\<close>

text \<open>
  Two successive notifications may be equal only when they are \<open>Searching...\<close>; and
  the displayed text \<open>curr_text\<close> is the last notification, or it is empty right after
  a fetch, whose notification \<open>Searching...\<close> is then the last one.
\<close>

definition repeat_ok :: "string \<Rightarrow> string \<Rightarrow> bool" where
  "repeat_ok a b \<longleftrightarrow> (a = b \<longrightarrow> a = ''Searching...'')"

definition trace_inv :: "loop_state \<Rightarrow> bool" where
  "trace_inv st \<longleftrightarrow>
     successively repeat_ok (emitted st)
     \<and> (if emitted st = [] then curr_text st = []
        else curr_text st = last (emitted st)
             \<or> (curr_text st = [] \<and> last (emitted st) = ''Searching...''))"

section \<open>Example inputs\<close>

text \<open>
  An empty cache directory where every path can be written, a session of a given
  application, title, artist and playback status, and a poll of a session during which
  the service gives a fixed answer.
\<close>

abbreviation example_env :: environment where
  "example_env \<equiv> \<lparr>cache_files = Map.empty, cache_writable = (\<lambda>_. True), http_requests = []\<rparr>"

abbreviation example_session :: "string \<Rightarrow> string \<Rightarrow> string \<Rightarrow> int \<Rightarrow> media_session" where
  "example_session app t a status \<equiv>
     \<lparr>source_app_user_model_id = app, title = t, artist = a, album_title = ''Album'',
      position = 2000000, end_time = 200000000, last_updated_time = 0, playback_status = status\<rparr>"

abbreviation example_poll :: "media_session \<Rightarrow> http_result \<Rightarrow> poll" where
  "example_poll s r \<equiv> \<lparr>session = Some s, now = 0, lrclib = (\<lambda>_. r)\<rparr>"

section \<open>Binary search on a sorted list\<close>

lemma bisect_loop_sorted:
  assumes "sorted a" and "lo \<le> hi" and "hi \<le> length a"
    and "\<forall>i<lo. a ! i \<le> x"
    and "\<forall>i. hi \<le> i \<and> i < length a \<longrightarrow> x < a ! i"
  shows "\<exists>r. bisect_loop a x lo hi = Inr r \<and> r \<le> length a
             \<and> (\<forall>i<r. a ! i \<le> x) \<and> (\<forall>i. r \<le> i \<and> i < length a \<longrightarrow> x < a ! i)"
  using assms
proof (induction a x lo hi rule: bisect_loop.induct)
  case (1 a x lo hi)
  show ?case
  proof (cases "lo < hi")
    case False
    with "1.prems" have "lo = hi" by simp
    with "1.prems" False show ?thesis
      by (subst bisect_loop.simps) auto
  next
    case True
    define mid where "mid = (lo + hi) div 2"
    from True have mid_bounds: "lo \<le> mid" "mid < hi" unfolding mid_def by auto
    with "1.prems" have mid_len: "mid < length a" by simp
    show ?thesis
    proof (cases "x < a ! mid")
      case less: True
      have above: "\<forall>i. mid \<le> i \<and> i < length a \<longrightarrow> x < a ! i"
      proof (intro allI impI)
        fix i assume i: "mid \<le> i \<and> i < length a"
        with \<open>sorted a\<close> have "a ! mid \<le> a ! i" by (simp add: sorted_nth_mono)
        with less show "x < a ! i" by simp
      qed
      have "\<exists>r. bisect_loop a x lo mid = Inr r \<and> r \<le> length a
             \<and> (\<forall>i<r. a ! i \<le> x) \<and> (\<forall>i. r \<le> i \<and> i < length a \<longrightarrow> x < a ! i)"
        using "1.IH"(1)[OF True mid_def mid_len less \<open>sorted a\<close>] mid_bounds mid_len
          "1.prems"(4) above by simp
      moreover have "bisect_loop a x lo hi = bisect_loop a x lo mid"
        using True mid_len less by (subst bisect_loop.simps) (simp add: mid_def Let_def)
      ultimately show ?thesis by simp
    next
      case geq: False
      have below: "\<forall>i<mid + 1. a ! i \<le> x"
      proof (intro allI impI)
        fix i assume "i < mid + 1"
        then have "i \<le> mid" by simp
        with \<open>sorted a\<close> mid_len have "a ! i \<le> a ! mid" by (simp add: sorted_nth_mono)
        with geq show "a ! i \<le> x" by simp
      qed
      have "\<exists>r. bisect_loop a x (mid + 1) hi = Inr r \<and> r \<le> length a
             \<and> (\<forall>i<r. a ! i \<le> x) \<and> (\<forall>i. r \<le> i \<and> i < length a \<longrightarrow> x < a ! i)"
        using "1.IH"(2)[OF True mid_def mid_len geq \<open>sorted a\<close>] mid_bounds
          "1.prems"(3,5) below by simp
      moreover have "bisect_loop a x lo hi = bisect_loop a x (mid + 1) hi"
        using True mid_len geq by (subst bisect_loop.simps) (simp add: mid_def Let_def)
      ultimately show ?thesis by simp
    qed
  qed
qed

lemma bisect_right_sorted:
  assumes "sorted a"
  shows "\<exists>r. bisect_right a x = Inr r \<and> r \<le> length a
             \<and> (\<forall>i<r. a ! i \<le> x) \<and> (\<forall>i. r \<le> i \<and> i < length a \<longrightarrow> x < a ! i)"
proof -
  have "\<forall>i<(0::nat). a ! i \<le> x" by simp
  moreover have "\<forall>i. length a \<le> i \<and> i < length a \<longrightarrow> x < a ! i" by auto
  ultimately show ?thesis
    unfolding bisect_right_def using bisect_loop_sorted[OF assms, of 0 "length a" x] by blast
qed


section \<open>The matcher and the line format\<close>

lemma not_digit_delims [simp]:
  "\<not> is_digit CHR '':''" "\<not> is_digit CHR ''.''" "\<not> is_digit CHR '']''"
  by (simp_all add: is_digit_def)





section \<open>Lines of \<open>splitlines\<close>\<close>









section \<open>The line loop of \<open>parse_lrc\<close>\<close>







lemma sorted_fst_of_sorted:
  fixes doc :: "('a::linorder \<times> 'b::linorder) list"
  assumes "sorted doc"
  shows "sorted (map fst doc)"
proof -
  have "sorted_wrt (\<lambda>x y. fst x \<le> fst y) doc"
    by (rule sorted_wrt_mono_rel[OF _ assms]) (auto simp: less_eq_prod_def)
  then show ?thesis by (simp add: sorted_map)
qed


section \<open>The cache and the service\<close>

lemma read_text_plain: "c \<noteq> CHR 0x0D \<Longrightarrow> read_text (c # xs) = c # read_text xs"
  by (cases xs) simp_all

lemma read_write_text: "CHR 0x0D \<notin> set s \<Longrightarrow> read_text (write_text s) = s"
proof (induction s)
  case Nil
  then show ?case by (simp add: write_text_def)
next
  case (Cons c s)
  then have ih: "read_text (write_text s) = s" and c: "c \<noteq> CHR 0x0D" by auto
  show ?case
  proof (cases "c = CHR 0x0A")
    case True
    then have "write_text (c # s) = CHR 0x0D # CHR 0x0A # write_text s"
      by (simp add: write_text_def)
    with ih True show ?thesis by simp
  next
    case False
    then have "write_text (c # s) = c # write_text s" by (simp add: write_text_def)
    with ih read_text_plain[OF c] show ?thesis by simp
  qed
qed

lemma fetch_lyrics_miss:
  assumes "cache_files e (cache_filepath a t) = None"
  shows "fetch_lyrics net a t al d e =
     (case try_request net (cache_filepath a t)
              \<lparr>artist_name = a, track_name = t, album_name = al, duration = d\<rparr> e of
        (Inl x, e') \<Rightarrow> (Inr None, e') | (Inr r, e') \<Rightarrow> (Inr r, e'))"
  using assms by (simp add: fetch_lyrics_def)

lemma fetch_lyrics_hit:
  assumes "cache_files e (cache_filepath a t) = Some (Text_file content)"
  shows "fetch_lyrics net a t al d e = (Inr (Some (read_text content)), e)"
  using assms by (simp add: fetch_lyrics_def)

lemma fetch_lyrics_failure:
  assumes miss: "cache_files e (cache_filepath a t) = None"
    and fail: "r = Network_error \<or> r = Timeout \<or> (\<exists>status body. r = Response status body \<and> status \<noteq> 200)
           \<or> r = Response 200 (Synced None) \<or> r = Response 200 (Synced (Some []))"
    and net: "net \<lparr>artist_name = a, track_name = t, album_name = al, duration = d\<rparr> = r"
  shows "fetch_lyrics net a t al d e
           = (Inr None, e\<lparr>http_requests := http_requests e
                @ [\<lparr>artist_name = a, track_name = t, album_name = al, duration = d\<rparr>]\<rparr>)"
  unfolding fetch_lyrics_miss[OF miss] using fail net
  by (auto simp: try_request_def Let_def)

section \<open>The position check\<close>


lemma active_line_empty: "active_line [] [] x = Inr ''...''"
  by (simp add: active_line_def bisect_right_def bisect_loop.simps)

section \<open>One iteration of the loop\<close>

lemma track_change_skip:
  "\<not> (song_id s \<noteq> last_id st \<and> \<not> is_fetching st) \<Longrightarrow> track_change p s st = Inr st"
  by (auto simp: track_change_def)

lemma track_change_fetch:
  assumes "song_id s \<noteq> last_id st" and "\<not> is_fetching st"
  shows "\<exists>e'. (\<exists>err. track_change p s st =
              Inl (err, st\<lparr>last_id := song_id s, is_fetching := True,
                           emitted := emitted st @ [''Searching...''],
                           fetch_calls := fetch_calls st + 1, env := e'\<rparr>))
           \<or> (\<exists>lyrics. track_change p s st =
              Inr (st\<lparr>last_id := song_id s, emitted := emitted st @ [''Searching...''],
                       fetch_calls := fetch_calls st + 1, env := e',
                       parsed_lyrics := lyrics, ts_list := map fst lyrics,
                       is_fetching := False, curr_text := []\<rparr>))"
proof -
  obtain r e' where f: "fetch_lyrics (lrclib p) (artist s) (title s) (album_title s)
       (total_seconds (end_time s)) (env st) = (r, e')"
    by (cases "fetch_lyrics (lrclib p) (artist s) (title s) (album_title s)
       (total_seconds (end_time s)) (env st)") blast
  show ?thesis
  proof (cases r)
    case (Inl err)
    with assms f have "track_change p s st =
              Inl (err, st\<lparr>last_id := song_id s, is_fetching := True,
                           emitted := emitted st @ [''Searching...''],
                           fetch_calls := fetch_calls st + 1, env := e'\<rparr>)"
      by (simp add: track_change_def Let_def emit_def)
    then show ?thesis by blast
  next
    case (Inr raw)
    define parsed where "parsed = (case raw of None \<Rightarrow> Inr []
                       | Some text \<Rightarrow> if text \<noteq> [] then parse_lrc text else Inr [])"
    show ?thesis
    proof (cases parsed)
      case (Inl err)
      with assms f Inr have "track_change p s st =
              Inl (err, st\<lparr>last_id := song_id s, is_fetching := True,
                           emitted := emitted st @ [''Searching...''],
                           fetch_calls := fetch_calls st + 1, env := e'\<rparr>)"
        by (simp add: track_change_def Let_def emit_def parsed_def)
      then show ?thesis by blast
    next
      case lyr: (Inr lyrics)
      with assms f Inr have "track_change p s st =
              Inr (st\<lparr>last_id := song_id s, emitted := emitted st @ [''Searching...''],
                       fetch_calls := fetch_calls st + 1, env := e',
                       parsed_lyrics := lyrics, ts_list := map fst lyrics,
                       is_fetching := False, curr_text := []\<rparr>)"
        by (simp add: track_change_def Let_def emit_def parsed_def)
      then show ?thesis by blast
    qed
  qed
qed

lemma position_check_cases:
  "position_check p s st = Inr st
   \<or> (\<exists>err. position_check p s st = Inl (err, st))
   \<or> (\<exists>new_lyric. new_lyric \<noteq> curr_text st
        \<and> position_check p s st =
            Inr (st\<lparr>emitted := emitted st @ [new_lyric], curr_text := new_lyric\<rparr>))"
  by (cases "active_line (ts_list st) (parsed_lyrics st) (true_pos p s)")
     (auto simp: position_check_def emit_def)

lemma song_id_nonempty: "song_id s \<noteq> []"
  by (simp add: song_id_def)

lemma track_change_coherent:
  assumes nf: "\<not> is_fetching st"
    and co: "last_id st \<noteq> [] \<longrightarrow> ts_list st = map fst (parsed_lyrics st)"
    and tc: "track_change p s st = Inr st1"
  shows "\<not> is_fetching st1 \<and> ts_list st1 = map fst (parsed_lyrics st1) \<and> last_id st1 = song_id s"
proof (cases "song_id s \<noteq> last_id st")
  case True
  from track_change_fetch[OF True nf, of p] tc show ?thesis by auto
next
  case False
  then have "track_change p s st = Inr st" by (simp add: track_change_skip)
  with tc have "st1 = st" by simp
  with False nf co song_id_nonempty[of s] show ?thesis by auto
qed

lemma position_check_frame:
  assumes "position_check p s st = Inr st'"
  shows "is_fetching st' = is_fetching st \<and> ts_list st' = ts_list st
       \<and> parsed_lyrics st' = parsed_lyrics st \<and> last_id st' = last_id st
       \<and> fetch_calls st' = fetch_calls st \<and> env st' = env st"
  using assms position_check_cases[of p s st] by auto

lemma tick_coherent:
  assumes nf: "\<not> is_fetching st"
    and co: "last_id st \<noteq> [] \<longrightarrow> ts_list st = map fst (parsed_lyrics st)"
    and t: "tick p st = Inr st'"
  shows "\<not> is_fetching st' \<and> (last_id st' \<noteq> [] \<longrightarrow> ts_list st' = map fst (parsed_lyrics st'))"
proof (cases "session p")
  case None
  with t have "st' = no_session st" by (simp add: tick_def)
  with nf show ?thesis by (simp add: no_session_def Let_def emit_def)
next
  case (Some s)
  show ?thesis
  proof (cases "contains ''spotify'' (lower (source_app_user_model_id s))")
    case False
    with t Some have "st' = wrong_source st" by (simp add: tick_def)
    with nf show ?thesis by (simp add: wrong_source_def Let_def emit_def)
  next
    case True
    with t Some obtain st1 where tc: "track_change p s st = Inr st1"
      and pc: "position_check p s st1 = Inr st'"
      by (cases "track_change p s st") (simp_all add: tick_def)
    from track_change_coherent[OF nf co tc] position_check_frame[OF pc]
    show ?thesis by simp
  qed
qed

lemma run_coherent:
  assumes "\<not> is_fetching st"
    and "last_id st \<noteq> [] \<longrightarrow> ts_list st = map fst (parsed_lyrics st)"
    and "run ps st = Inr st'"
  shows "\<not> is_fetching st' \<and> (last_id st' \<noteq> [] \<longrightarrow> ts_list st' = map fst (parsed_lyrics st'))"
  using assms
proof (induction ps arbitrary: st)
  case Nil
  then show ?case by simp
next
  case (Cons p ps)
  from Cons.prems(3) obtain st1 where t: "tick p st = Inr st1" and r: "run ps st1 = Inr st'"
    by (cases "tick p st") simp_all
  from tick_coherent[OF Cons.prems(1,2) t] have "\<not> is_fetching st1"
    "last_id st1 \<noteq> [] \<longrightarrow> ts_list st1 = map fst (parsed_lyrics st1)" by simp_all
  from Cons.IH[OF this r] show ?case .
qed

lemma track_change_calls:
  "fetch_calls (state_of (track_change p s st))
     = fetch_calls st + (if song_id s \<noteq> last_id st \<and> \<not> is_fetching st then 1 else 0)"
proof (cases "song_id s \<noteq> last_id st \<and> \<not> is_fetching st")
  case True
  then have a: "song_id s \<noteq> last_id st" and b: "\<not> is_fetching st" by simp_all
  from track_change_fetch[OF a b, of p] True show ?thesis
    by (auto simp: state_of_def)
next
  case False
  then show ?thesis by (simp add: track_change_skip state_of_def)
qed

lemma position_check_calls: "fetch_calls (state_of (position_check p s st)) = fetch_calls st"
  using position_check_cases[of p s st] by (auto simp: state_of_def)

lemma tick_tracking_calls:
  assumes "session p = Some s" and "contains ''spotify'' (lower (source_app_user_model_id s))"
  shows "fetch_calls (state_of (tick p st))
     = fetch_calls st + (if song_id s \<noteq> last_id st \<and> \<not> is_fetching st then 1 else 0)"
proof (cases "track_change p s st")
  case (Inl x)
  with assms have "tick p st = track_change p s st" by (simp add: tick_def)
  then show ?thesis by (simp add: track_change_calls)
next
  case (Inr st1)
  with assms have "tick p st = position_check p s st1" by (simp add: tick_def)
  moreover from Inr track_change_calls[of p s st] have "fetch_calls st1
     = fetch_calls st + (if song_id s \<noteq> last_id st \<and> \<not> is_fetching st then 1 else 0)"
    by (simp add: state_of_def)
  ultimately show ?thesis by (simp add: position_check_calls)
qed

lemma tick_tracking_last_id:
  assumes "session p = Some s" and "contains ''spotify'' (lower (source_app_user_model_id s))"
    and nf: "\<not> is_fetching st" and t: "tick p st = Inr st'"
  shows "last_id st' = song_id s \<and> \<not> is_fetching st'"
proof -
  from t assms(1,2) obtain st1 where tc: "track_change p s st = Inr st1"
    and pc: "position_check p s st1 = Inr st'"
    by (cases "track_change p s st") (simp_all add: tick_def)
  have "last_id st1 = song_id s \<and> \<not> is_fetching st1"
  proof (cases "song_id s \<noteq> last_id st")
    case True
    from track_change_fetch[OF True nf, of p] tc show ?thesis by auto
  next
    case False
    with tc nf show ?thesis by (simp add: track_change_skip)
  qed
  with position_check_frame[OF pc] show ?thesis by simp
qed

section \<open>The emitted texts\<close>

lemma successively_snoc:
  "successively P (xs @ [x]) \<longleftrightarrow> successively P xs \<and> (xs = [] \<or> P (last xs) x)"
  by (simp add: successively_append_iff)

lemma trace_inv_guarded_emit:
  assumes "trace_inv st" and "t \<noteq> curr_text st"
  shows "trace_inv (st\<lparr>emitted := emitted st @ [t], curr_text := t\<rparr>)"
  using assms by (auto simp: trace_inv_def successively_snoc repeat_ok_def split: if_splits)

lemma trace_inv_frame:
  assumes "trace_inv st" and "emitted st' = emitted st" and "curr_text st' = curr_text st"
  shows "trace_inv st'"
  using assms by (simp add: trace_inv_def)

lemma trace_inv_no_session: "trace_inv st \<Longrightarrow> trace_inv (no_session st)"
proof -
  assume i: "trace_inv st"
  show ?thesis
  proof (cases "curr_text st \<noteq> ''Waiting for Spotify...''")
    case True
    from trace_inv_guarded_emit[OF i, of "''Waiting for Spotify...''"] True
    have "trace_inv (st\<lparr>emitted := emitted st @ [''Waiting for Spotify...''],
                        curr_text := ''Waiting for Spotify...''\<rparr>)" by simp
    then show ?thesis
      by (rule trace_inv_frame) (use True in \<open>simp_all add: no_session_def emit_def\<close>)
  next
    case False
    show ?thesis
      by (rule trace_inv_frame[OF i]) (use False in \<open>simp_all add: no_session_def\<close>)
  qed
qed

lemma trace_inv_wrong_source: "trace_inv st \<Longrightarrow> trace_inv (wrong_source st)"
proof -
  assume i: "trace_inv st"
  show ?thesis
  proof (cases "curr_text st \<noteq> ''Not Spotify''")
    case True
    from trace_inv_guarded_emit[OF i, of "''Not Spotify''"] True
    have "trace_inv (st\<lparr>emitted := emitted st @ [''Not Spotify''],
                        curr_text := ''Not Spotify''\<rparr>)" by simp
    then show ?thesis
      by (rule trace_inv_frame) (use True in \<open>simp_all add: wrong_source_def emit_def\<close>)
  next
    case False
    show ?thesis
      by (rule trace_inv_frame[OF i]) (use False in \<open>simp_all add: wrong_source_def\<close>)
  qed
qed

lemma trace_inv_track_change:
  assumes i: "trace_inv st"
  shows "(\<forall>st1. track_change p s st = Inr st1 \<longrightarrow> trace_inv st1)
       \<and> (\<forall>err st1. track_change p s st = Inl (err, st1) \<longrightarrow> successively repeat_ok (emitted st1))"
proof (cases "song_id s \<noteq> last_id st \<and> \<not> is_fetching st")
  case False
  then have "track_change p s st = Inr st" by (rule track_change_skip)
  with i show ?thesis by simp
next
  case True
  then have a: "song_id s \<noteq> last_id st" and b: "\<not> is_fetching st" by simp_all
  have s: "successively repeat_ok (emitted st @ [''Searching...''])"
    using i by (auto simp: trace_inv_def successively_snoc repeat_ok_def)
  from track_change_fetch[OF a b, of p] s show ?thesis
    by (auto simp: trace_inv_def)
qed

lemma trace_inv_position_check:
  assumes i: "trace_inv st"
  shows "(\<forall>st1. position_check p s st = Inr st1 \<longrightarrow> trace_inv st1)
       \<and> (\<forall>err st1. position_check p s st = Inl (err, st1) \<longrightarrow> successively repeat_ok (emitted st1))"
proof -
  from i have s: "successively repeat_ok (emitted st)" by (simp add: trace_inv_def)
  from position_check_cases[of p s st] consider
    "position_check p s st = Inr st"
    | err where "position_check p s st = Inl (err, st)"
    | new_lyric where "new_lyric \<noteq> curr_text st"
        "position_check p s st = Inr (st\<lparr>emitted := emitted st @ [new_lyric], curr_text := new_lyric\<rparr>)"
    by blast
  then show ?thesis
  proof cases
    case 1
    with i show ?thesis by simp
  next
    case 2
    with s show ?thesis by simp
  next
    case 3
    with trace_inv_guarded_emit[OF i 3(1)] show ?thesis by simp
  qed
qed

lemma trace_inv_tick:
  assumes i: "trace_inv st"
  shows "(\<forall>st1. tick p st = Inr st1 \<longrightarrow> trace_inv st1)
       \<and> (\<forall>err st1. tick p st = Inl (err, st1) \<longrightarrow> successively repeat_ok (emitted st1))"
proof (cases "session p")
  case None
  with trace_inv_no_session[OF i] show ?thesis by (simp add: tick_def)
next
  case (Some s)
  show ?thesis
  proof (cases "contains ''spotify'' (lower (source_app_user_model_id s))")
    case False
    with Some trace_inv_wrong_source[OF i] show ?thesis by (simp add: tick_def)
  next
    case True
    show ?thesis
    proof (cases "track_change p s st")
      case (Inl x)
      with Some True have "tick p st = Inl x" by (simp add: tick_def)
      with Inl trace_inv_track_change[OF i, of p s] show ?thesis by (cases x) auto
    next
      case (Inr st1)
      with Some True have t: "tick p st = position_check p s st1" by (simp add: tick_def)
      from Inr trace_inv_track_change[OF i, of p s] have "trace_inv st1" by simp
      from trace_inv_position_check[OF this, of p s] t show ?thesis by simp
    qed
  qed
qed

lemma trace_inv_run:
  "trace_inv st \<Longrightarrow> successively repeat_ok (emitted (state_of (run ps st)))"
proof (induction ps arbitrary: st)
  case Nil
  then show ?case by (simp add: state_of_def trace_inv_def)
next
  case (Cons p ps)
  show ?case
  proof (cases "tick p st")
    case (Inl x)
    obtain err st1 where x: "x = (err, st1)" by (cases x) auto
    with Inl trace_inv_tick[OF Cons.prems, of p] show ?thesis by (simp add: state_of_def)
  next
    case (Inr st1)
    with trace_inv_tick[OF Cons.prems, of p] have "trace_inv st1" by simp
    from Cons.IH[OF this] Inr show ?thesis by simp
  qed
qed

section \<open>Evaluation of the examples\<close>

lemma lower_spotify_exe: "lower ''Spotify.exe'' = ''spotify.exe''"
  by code_simp

lemmas loop_defs = tick_def track_change_def position_check_def fetch_lyrics_def try_request_def
  no_session_def wrong_source_def emit_def initial_state_def state_of_def song_id_def
  lower_spotify_exe Let_def

lemma lower_chrome_exe: "lower ''chrome.exe'' = ''chrome.exe''"
  by code_simp

lemma parse_one_line: "parse_lrc ''[00:01.00]a'' = Inr [(1, ''a'')]"
  by code_simp

lemma lookup_one_line: "active_line [1 :: rat] [(1, ''a'')] 2 = Inr ''a''"
  by (simp add: active_line_def bisect_right_def bisect_loop.simps)

lemma two_paused_tracks:
  "emitted (state_of (run
      [example_poll (example_session ''Spotify.exe'' ''Song1'' ''Artist1'' 5) Network_error,
       example_poll (example_session ''Spotify.exe'' ''Song2'' ''Artist1'' 5) Network_error]
      (initial_state example_env)))
   = [''Searching...'', ''Searching...'']"
  by (simp add: loop_defs)

section \<open>Claims\<close>

text \<open>
  C1. For a lyric document sorted non-decreasingly by timestamp, indexed by the list of
  its timestamps, the active-line lookup at a position raises nothing and returns:
  the sentinel \<open>...\<close> when no entry has a timestamp at or before the position (in
  particular for the empty document); otherwise the text of an entry whose timestamp is
  at or before the position and is the greatest such timestamp, namely the rightmost
  entry at or before the position.
\<close>

theorem active_line_greatest_le:
  assumes "sorted (map fst doc)"
  shows "((\<forall>e \<in> set doc. pos < fst e) \<longrightarrow> active_line (map fst doc) doc pos = Inr ''...'')
       \<and> ((\<exists>e \<in> set doc. fst e \<le> pos) \<longrightarrow>
            (\<exists>i<length doc. active_line (map fst doc) doc pos = Inr (snd (doc ! i))
               \<and> fst (doc ! i) \<le> pos
               \<and> (\<forall>j<length doc. fst (doc ! j) \<le> pos \<longrightarrow> fst (doc ! j) \<le> fst (doc ! i) \<and> j \<le> i)))"
proof -
  obtain r where r: "bisect_right (map fst doc) pos = Inr r" "r \<le> length doc"
    and lo: "\<forall>i<r. fst (doc ! i) \<le> pos"
    and hi: "\<forall>i. r \<le> i \<and> i < length doc \<longrightarrow> pos < fst (doc ! i)"
    using bisect_right_sorted[OF assms, of pos] by auto
  have none: "active_line (map fst doc) doc pos = Inr ''...''" if "\<forall>e \<in> set doc. pos < fst e"
  proof -
    have "r = 0"
    proof (rule ccontr)
      assume "r \<noteq> 0"
      then have "0 < r" by simp
      with r(2) have "0 < length doc" by linarith
      then have "doc ! 0 \<in> set doc" by (rule nth_mem)
      with that have "pos < fst (doc ! 0)" by blast
      moreover from lo \<open>0 < r\<close> have "fst (doc ! 0) \<le> pos" by blast
      ultimately show False by simp
    qed
    with r(1) show ?thesis by (simp add: active_line_def)
  qed
  have some: "\<exists>i<length doc. active_line (map fst doc) doc pos = Inr (snd (doc ! i))
               \<and> fst (doc ! i) \<le> pos
               \<and> (\<forall>j<length doc. fst (doc ! j) \<le> pos \<longrightarrow> fst (doc ! j) \<le> fst (doc ! i) \<and> j \<le> i)"
    if "\<exists>e \<in> set doc. fst e \<le> pos"
  proof -
    from that obtain k where k: "k < length doc" "fst (doc ! k) \<le> pos"
      by (auto simp: in_set_conv_nth)
    have "0 < r"
    proof (rule ccontr)
      assume "\<not> 0 < r"
      with hi k(1) have "pos < fst (doc ! k)" by simp
      with k(2) show False by simp
    qed
    with r(2) have i: "r - 1 < length doc" by simp
    have res: "active_line (map fst doc) doc pos = Inr (snd (doc ! (r - 1)))"
      using r(1) \<open>0 < r\<close> i by (simp add: active_line_def)
    have le: "fst (doc ! (r - 1)) \<le> pos" using lo \<open>0 < r\<close> by simp
    have great: "fst (doc ! j) \<le> fst (doc ! (r - 1)) \<and> j \<le> r - 1"
      if j: "j < length doc" "fst (doc ! j) \<le> pos" for j
    proof -
      have "j < r"
      proof (rule ccontr)
        assume "\<not> j < r"
        with hi j(1) have "pos < fst (doc ! j)" by simp
        with j(2) show False by simp
      qed
      then have jr: "j \<le> r - 1" by simp
      have "r - 1 < length (map fst doc)" using i by simp
      with assms jr have "map fst doc ! j \<le> map fst doc ! (r - 1)"
        by (rule sorted_nth_mono)
      with j(1) i jr show ?thesis by simp
    qed
    from i res le great show ?thesis by blast
  qed
  from none some show ?thesis by blast
qed

theorem active_line_greatest_le_witness:
  "sorted (map fst [(0::rat, ''A''), (21 / 2, ''B''), (20, ''C'')])
   \<and> active_line (map fst [(0::rat, ''A''), (21 / 2, ''B''), (20, ''C'')])
        [(0, ''A''), (21 / 2, ''B''), (20, ''C'')] (21 / 2) = Inr ''B''
   \<and> active_line (map fst [(0::rat, ''A''), (21 / 2, ''B''), (20, ''C'')])
        [(0, ''A''), (21 / 2, ''B''), (20, ''C'')] (- 1) = Inr ''...''"
proof -
  have h: "sorted (map fst [(0::rat, ''A''), (21 / 2, ''B''), (20, ''C'')])" by simp
  have b1: "bisect_right [0::rat, 21 / 2, 20] (21 / 2) = Inr 2"
    by (simp add: bisect_right_def bisect_loop.simps)
  have b2: "bisect_right [0::rat, 21 / 2, 20] (- 1) = Inr 0"
    by (simp add: bisect_right_def bisect_loop.simps)
  show ?thesis
    using h active_line_greatest_le [OF h, of "21 / 2"] b1 b2
    by (simp add: active_line_def)
qed

text \<open>
  C2, as stated, fails: two lines with the same timestamp come out ordered by their
  text, not in the order of the input. Here the input has \<open>b\<close> before \<open>a\<close>, a stable
  sort by timestamp alone would keep that order, and \<open>parse_lrc\<close> returns \<open>a\<close> before
  \<open>b\<close>.
\<close>

theorem parse_lrc_not_stable_counterexample:
  "parse_loop (splitlines (''[00:01.00]b'' @ [CHR 0x0A] @ ''[00:01.00]a'')) []
     = Inr [(1, ''b''), (1, ''a'')]
   \<and> sort_key fst [(1 :: rat, ''b''), (1, ''a'')] = [(1, ''b''), (1, ''a'')]
   \<and> parse_lrc (''[00:01.00]b'' @ [CHR 0x0A] @ ''[00:01.00]a'') = Inr [(1, ''a''), (1, ''b'')]"
proof -
  have "parse_loop (splitlines (''[00:01.00]b'' @ [CHR 0x0A] @ ''[00:01.00]a'')) []
     = Inr [(1, ''b''), (1, ''a'')]"
    by code_simp
  moreover have "sort_key fst [(1 :: rat, ''b''), (1, ''a'')] = [(1, ''b''), (1, ''a'')]"
    by simp
  moreover have "parse_lrc (''[00:01.00]b'' @ [CHR 0x0A] @ ''[00:01.00]a'')
     = Inr [(1, ''a''), (1, ''b'')]"
    by code_simp
  ultimately show ?thesis by blast
qed

text \<open>
  C2, amended. For every raw lyric text whose line loop raises nothing and collects the
  entries \<open>lyrics_data\<close>, \<open>parse_lrc\<close> returns a document with exactly these entries,
  in ascending order of timestamp; entries with equal timestamps are in ascending order
  of their text (the tuples are sorted as a whole), whatever their order in the input.
\<close>

theorem parse_lrc_sorted_by_tuple:
  assumes "parse_loop (splitlines lrc_text) [] = Inr lyrics_data"
  shows "\<exists>doc. parse_lrc lrc_text = Inr doc \<and> mset doc = mset lyrics_data
           \<and> sorted (map fst doc)
           \<and> (\<forall>i j. i < j \<and> j < length doc \<and> fst (doc ! i) = fst (doc ! j)
                  \<longrightarrow> snd (doc ! i) \<le> snd (doc ! j))"
proof -
  let ?doc = "sort lyrics_data"
  have p: "parse_lrc lrc_text = Inr ?doc" using assms by (simp add: parse_lrc_def)
  have s: "sorted ?doc" by simp
  have ties: "snd (?doc ! i) \<le> snd (?doc ! j)"
    if "i < j \<and> j < length ?doc \<and> fst (?doc ! i) = fst (?doc ! j)" for i j
  proof -
    from that have "i \<le> j" "j < length ?doc" by simp_all
    with s have "?doc ! i \<le> ?doc ! j" by (rule sorted_nth_mono)
    with that show ?thesis by (simp add: less_eq_prod_def)
  qed
  from p sorted_fst_of_sorted[OF s] ties show ?thesis by auto
qed

theorem parse_lrc_sorted_by_tuple_witness:
  "parse_loop (splitlines (''[00:01.00]b'' @ [CHR 0x0A] @ ''[00:01.00]a'')) []
     = Inr [(1, ''b''), (1, ''a'')]
   \<and> (\<exists>doc. parse_lrc (''[00:01.00]b'' @ [CHR 0x0A] @ ''[00:01.00]a'') = Inr doc
          \<and> mset doc = mset [(1, ''b''), (1, ''a'')] \<and> sorted (map fst doc)
          \<and> (\<forall>i j. i < j \<and> j < length doc \<and> fst (doc ! i) = fst (doc ! j)
                  \<longrightarrow> snd (doc ! i) \<le> snd (doc ! j)))"
proof -
  have h: "parse_loop (splitlines (''[00:01.00]b'' @ [CHR 0x0A] @ ''[00:01.00]a'')) []
     = Inr [(1, ''b''), (1, ''a'')]"
    by code_simp
  from h parse_lrc_sorted_by_tuple[OF h] show ?thesis by blast
qed






text \<open>
  C5. When the cache has no file for the track and the service gives a network error, a
  timeout, a status other than 200, or a 200 answer whose synced-lyrics field is
  missing, null or empty, \<open>fetch_lyrics\<close> returns \<open>None\<close> and raises nothing; the
  caller, at a track change, then installs the empty document and the empty timestamp
  list, clears the fetching flag, and a playing poll goes on to show the sentinel.
\<close>

theorem fetch_failure_gives_empty_document:
  assumes miss: "cache_files (env st) (cache_filepath (artist s) (title s)) = None"
    and fail: "r = Network_error \<or> r = Timeout \<or> (\<exists>status body. r = Response status body \<and> status \<noteq> 200)
           \<or> r = Response 200 (Synced None) \<or> r = Response 200 (Synced (Some []))"
    and net: "lrclib p \<lparr>artist_name = artist s, track_name = title s, album_name = album_title s,
                        duration = total_seconds (end_time s)\<rparr> = r"
    and changed: "song_id s \<noteq> last_id st" "\<not> is_fetching st"
  shows "fst (fetch_lyrics (lrclib p) (artist s) (title s) (album_title s)
                (total_seconds (end_time s)) (env st)) = Inr None
       \<and> (\<exists>st'. track_change p s st = Inr st' \<and> parsed_lyrics st' = [] \<and> ts_list st' = []
              \<and> \<not> is_fetching st' \<and> last_id st' = song_id s
              \<and> (playback_status s = 4 \<longrightarrow>
                    (\<exists>st''. position_check p s st' = Inr st'' \<and> curr_text st'' = ''...''
                        \<and> emitted st'' = emitted st @ [''Searching...'', ''...''])))"
proof -
  note f = fetch_lyrics_failure[where net = "lrclib p" and r = r and a = "artist s"
      and t = "title s" and al = "album_title s" and d = "total_seconds (end_time s)",
      OF _ fail net]
  have f1: "fst (fetch_lyrics (lrclib p) (artist s) (title s) (album_title s)
                (total_seconds (end_time s)) (env st)) = Inr None"
    using f[OF miss] by simp
  let ?st2 = "(emit ''Searching...'' (st\<lparr>last_id := song_id s, is_fetching := True\<rparr>))
                \<lparr>fetch_calls := fetch_calls st + 1\<rparr>"
  have e2: "env ?st2 = env st" by (simp add: emit_def)
  let ?env' = "(env st)\<lparr>http_requests := http_requests (env st)
                @ [\<lparr>artist_name = artist s, track_name = title s, album_name = album_title s,
                        duration = total_seconds (end_time s)\<rparr>]\<rparr>"
  let ?st' = "?st2\<lparr>env := ?env', parsed_lyrics := [], ts_list := [],
                    is_fetching := False, curr_text := []\<rparr>"
  have tc: "track_change p s st = Inr ?st'"
    using changed f[OF miss] by (simp add: track_change_def Let_def emit_def)
  have pc: "position_check p s ?st' = Inr ((emit ''...'' ?st')\<lparr>curr_text := ''...''\<rparr>)"
    if "playback_status s = 4"
    using that by (simp add: position_check_def active_line_empty)
  have "\<exists>st''. position_check p s ?st' = Inr st'' \<and> curr_text st'' = ''...''
                        \<and> emitted st'' = emitted st @ [''Searching...'', ''...'']"
    if "playback_status s = 4"
    using pc[OF that] by (simp add: emit_def)
  with tc have "\<exists>st'. track_change p s st = Inr st' \<and> parsed_lyrics st' = [] \<and> ts_list st' = []
              \<and> \<not> is_fetching st' \<and> last_id st' = song_id s
              \<and> (playback_status s = 4 \<longrightarrow>
                    (\<exists>st''. position_check p s st' = Inr st'' \<and> curr_text st'' = ''...''
                        \<and> emitted st'' = emitted st @ [''Searching...'', ''...'']))"
    by (simp add: emit_def)
  with f1 show ?thesis by blast
qed

theorem fetch_failure_gives_empty_document_witness:
  "fst (fetch_lyrics (\<lambda>_. Timeout) ''Artist1'' ''Song1'' ''Album'' 200
          \<lparr>cache_files = Map.empty, cache_writable = (\<lambda>_. True), http_requests = []\<rparr>) = Inr None
   \<and> (\<exists>st'. track_change
          \<lparr>session = None, now = 3000000, lrclib = (\<lambda>_. Timeout)\<rparr>
          \<lparr>source_app_user_model_id = ''Spotify.exe'', title = ''Song1'', artist = ''Artist1'',
           album_title = ''Album'', position = 30000000, end_time = 200000000,
           last_updated_time = 1000000, playback_status = 4\<rparr>
          (initial_state \<lparr>cache_files = Map.empty, cache_writable = (\<lambda>_. True), http_requests = []\<rparr>)
         = Inr st' \<and> parsed_lyrics st' = [] \<and> ts_list st' = [] \<and> \<not> is_fetching st')"
proof -
  let ?e = "\<lparr>cache_files = Map.empty, cache_writable = (\<lambda>_. True), http_requests = []\<rparr>"
  let ?s = "\<lparr>source_app_user_model_id = ''Spotify.exe'', title = ''Song1'', artist = ''Artist1'',
           album_title = ''Album'', position = 30000000, end_time = 200000000,
           last_updated_time = 1000000, playback_status = 4\<rparr>"
  let ?p = "\<lparr>session = None, now = 3000000, lrclib = (\<lambda>_::lrclib_request. Timeout)\<rparr>"
  have miss: "cache_files (env (initial_state ?e)) (cache_filepath (artist ?s) (title ?s)) = None"
    by (simp add: initial_state_def)
  have fail: "Timeout = Network_error \<or> Timeout = Timeout
      \<or> (\<exists>status body. Timeout = Response status body \<and> status \<noteq> 200)
      \<or> Timeout = Response 200 (Synced None) \<or> Timeout = Response 200 (Synced (Some []))"
    by simp
  have net: "lrclib ?p \<lparr>artist_name = artist ?s, track_name = title ?s,
      album_name = album_title ?s, duration = total_seconds (end_time ?s)\<rparr> = Timeout"
    by simp
  have ch: "song_id ?s \<noteq> last_id (initial_state ?e)" "\<not> is_fetching (initial_state ?e)"
    by (simp_all add: song_id_def initial_state_def)
  have ev: "total_seconds (end_time ?s) = 200" "artist ?s = ''Artist1''" "title ?s = ''Song1''"
    "album_title ?s = ''Album''" "env (initial_state ?e) = ?e" "lrclib ?p = (\<lambda>_. Timeout)"
    by (simp_all add: total_seconds_def initial_state_def)
  from fetch_failure_gives_empty_document[where st = "initial_state ?e" and s = ?s and p = ?p
      and r = Timeout, OF miss fail net ch]
  show ?thesis unfolding ev by blast
qed

text \<open>
  C7, as stated, fails in "byte-identical": the cache file is written and read in text
  mode, so a fetched text with a carriage return comes back changed. Here the service
  returns two lines separated by \<open>\r\n\<close>; the first call returns that text, the second
  call, answered from the cache, returns the lines separated by \<open>\n\n\<close>.
\<close>

theorem cache_not_identical_counterexample:
  "fst (fetch_lyrics (\<lambda>_. Response 200 (Synced (Some (''[00:01.00]a'' @ [CHR 0x0D, CHR 0x0A] @ ''[00:02.00]b''))))
          ''Abba'' ''SOS'' ''x'' 200
          \<lparr>cache_files = Map.empty, cache_writable = (\<lambda>_. True), http_requests = []\<rparr>)
     = Inr (Some (''[00:01.00]a'' @ [CHR 0x0D, CHR 0x0A] @ ''[00:02.00]b''))
   \<and> fst (fetch_lyrics (\<lambda>_. Network_error) ''Abba'' ''SOS'' ''x'' 200
          (snd (fetch_lyrics (\<lambda>_. Response 200 (Synced (Some (''[00:01.00]a'' @ [CHR 0x0D, CHR 0x0A] @ ''[00:02.00]b''))))
                  ''Abba'' ''SOS'' ''x'' 200
                  \<lparr>cache_files = Map.empty, cache_writable = (\<lambda>_. True), http_requests = []\<rparr>)))
     = Inr (Some (''[00:01.00]a'' @ [CHR 0x0A, CHR 0x0A] @ ''[00:02.00]b''))"
  by (simp add: fetch_lyrics_def try_request_def write_text_def Let_def)

text \<open>
  C7, amended. For every track key with no cache file yet, after one successful fetch
  (status 200, a non-empty synced-lyrics string, a cache path that can be written) has
  returned the text and persisted it, resolving the same artist and title again,
  whatever the album, the duration and the state of the service, returns the text read
  back from the cache and issues no request (the environment, with its list of
  requests, is unchanged). The text read back is the fetched text with its line endings
  translated by the text mode; it is the fetched text itself when that contains no
  carriage return.
\<close>

theorem cache_round_trip:
  assumes miss: "cache_files e (cache_filepath a t) = None"
    and ok: "net \<lparr>artist_name = a, track_name = t, album_name = al, duration = d\<rparr>
               = Response 200 (Synced (Some lyrics))"
    and ne: "lyrics \<noteq> []"
    and w: "cache_writable e (cache_filepath a t)"
  shows "\<exists>e1. fetch_lyrics net a t al d e = (Inr (Some lyrics), e1)
            \<and> fetch_lyrics net' a t al' d' e1 = (Inr (Some (read_text (write_text lyrics))), e1)
            \<and> (CHR 0x0D \<notin> set lyrics \<longrightarrow> read_text (write_text lyrics) = lyrics)"
proof -
  let ?e1 = "e\<lparr>http_requests := http_requests e
                  @ [\<lparr>artist_name = a, track_name = t, album_name = al, duration = d\<rparr>],
               cache_files := (cache_files e)(cache_filepath a t \<mapsto> Text_file (write_text lyrics))\<rparr>"
  have t: "try_request net (cache_filepath a t)
       \<lparr>artist_name = a, track_name = t, album_name = al, duration = d\<rparr> e
       = (Inr (Some lyrics), ?e1)"
    using ok ne w by (simp add: try_request_def Let_def)
  have first: "fetch_lyrics net a t al d e = (Inr (Some lyrics), ?e1)"
    unfolding fetch_lyrics_miss[OF miss] t by simp
  have "cache_files ?e1 (cache_filepath a t) = Some (Text_file (write_text lyrics))" by simp
  from fetch_lyrics_hit[OF this]
  have second: "fetch_lyrics net' a t al' d' ?e1 = (Inr (Some (read_text (write_text lyrics))), ?e1)" .
  from first second read_write_text show ?thesis by blast
qed

theorem cache_round_trip_witness:
  "\<exists>e1. fetch_lyrics (\<lambda>_. Response 200 (Synced (Some ''[00:01.00]a''))) ''Abba'' ''SOS'' ''x'' 200
           \<lparr>cache_files = Map.empty, cache_writable = (\<lambda>_. True), http_requests = []\<rparr>
         = (Inr (Some ''[00:01.00]a''), e1)
       \<and> fetch_lyrics (\<lambda>_. Network_error) ''Abba'' ''SOS'' ''y'' 0 e1
         = (Inr (Some ''[00:01.00]a''), e1)"
proof -
  let ?e = "\<lparr>cache_files = Map.empty, cache_writable = (\<lambda>_. True), http_requests = []\<rparr>"
  let ?net = "\<lambda>_::lrclib_request. Response 200 (Synced (Some ''[00:01.00]a''))"
  have miss: "cache_files ?e (cache_filepath ''Abba'' ''SOS'') = None" by simp
  have ok: "?net \<lparr>artist_name = ''Abba'', track_name = ''SOS'', album_name = ''x'', duration = 200\<rparr>
      = Response 200 (Synced (Some ''[00:01.00]a''))" by simp
  have ne: "''[00:01.00]a'' \<noteq> []" by simp
  have w: "cache_writable ?e (cache_filepath ''Abba'' ''SOS'')" by simp
  have cr: "CHR 0x0D \<notin> set ''[00:01.00]a''" by simp
  from cache_round_trip[where net = ?net and a = "''Abba''" and t = "''SOS''" and al = "''x''"
      and d = 200 and e = ?e and lyrics = "''[00:01.00]a''"
      and net' = "\<lambda>_. Network_error" and al' = "''y''" and d' = 0, OF miss ok ne w] cr
  show ?thesis by auto
qed

text \<open>
  C9. In a poll of a Spotify session whose playback status is not "playing", the
  position check emits nothing and leaves the whole state as it is, the displayed
  text, the document and the last identity included; when the track has not changed
  either, the whole iteration leaves the state as it is.
\<close>

theorem paused_position_check_is_skip:
  assumes "playback_status s \<noteq> 4"
  shows "position_check p s st = Inr st
       \<and> (session p = Some s \<and> contains ''spotify'' (lower (source_app_user_model_id s))
            \<and> song_id s = last_id st \<longrightarrow> tick p st = Inr st)"
  using assms by (simp add: position_check_def tick_def track_change_def)

theorem paused_position_check_is_skip_witness:
  "position_check
     \<lparr>session = None, now = 0, lrclib = (\<lambda>_. Network_error)\<rparr>
     \<lparr>source_app_user_model_id = ''Spotify.exe'', title = ''Song1'', artist = ''Artist1'',
      album_title = ''Album'', position = 30000000, end_time = 200000000,
      last_updated_time = 1000000, playback_status = 5\<rparr>
     (initial_state \<lparr>cache_files = Map.empty, cache_writable = (\<lambda>_. True), http_requests = []\<rparr>)
   = Inr (initial_state \<lparr>cache_files = Map.empty, cache_writable = (\<lambda>_. True), http_requests = []\<rparr>)"
proof -
  have h: "playback_status \<lparr>source_app_user_model_id = ''Spotify.exe'', title = ''Song1'',
      artist = ''Artist1'', album_title = ''Album'', position = 30000000, end_time = 200000000,
      last_updated_time = 1000000, playback_status = 5\<rparr> \<noteq> 4" by simp
  from paused_position_check_is_skip[OF h] show ?thesis by blast
qed

text \<open>
  C3, as stated, fails in "a different pair triggers exactly one fetch": the identity
  the loop compares is the string \<open>title-artist\<close>, and two different pairs can give the
  same string. Here the title \<open>x-\<close> by the artist \<open>y\<close> is followed by the title \<open>x\<close>
  by the artist \<open>-y\<close>: the pairs differ, and the second poll fetches nothing (one call
  of \<open>fetch_lyrics\<close> after the first poll, and still one after the second).
\<close>

theorem same_song_id_no_fetch_counterexample:
  "(''y'', ''x-'') \<noteq> (''-y'', ''x'')
   \<and> fetch_calls (state_of (run
        [example_poll (example_session ''Spotify.exe'' ''x-'' ''y'' 5) Network_error]
        (initial_state example_env))) = 1
   \<and> fetch_calls (state_of (run
        [example_poll (example_session ''Spotify.exe'' ''x-'' ''y'' 5) Network_error,
         example_poll (example_session ''Spotify.exe'' ''x'' ''-y'' 5) Network_error]
        (initial_state example_env))) = 1"
  by (simp add: loop_defs)

text \<open>
  C3, amended. For two successive polls of Spotify sessions, the first one ending
  without an exception from a state with no fetch in flight, the second poll calls
  \<open>fetch_lyrics\<close> once when its identity string \<open>title-artist\<close> differs from that of the
  first poll, and not at all when the strings are equal; in particular the same artist
  and title never trigger a second fetch.
\<close>

theorem fetch_iff_song_id_differs:
  assumes "session p1 = Some s1" and "contains ''spotify'' (lower (source_app_user_model_id s1))"
    and "session p2 = Some s2" and "contains ''spotify'' (lower (source_app_user_model_id s2))"
    and "\<not> is_fetching st" and "tick p1 st = Inr st1"
  shows "fetch_calls (state_of (tick p2 st1))
           = fetch_calls st1 + (if song_id s2 \<noteq> song_id s1 then 1 else 0)
       \<and> (artist s2 = artist s1 \<and> title s2 = title s1
            \<longrightarrow> fetch_calls (state_of (tick p2 st1)) = fetch_calls st1)"
proof -
  from tick_tracking_last_id[OF assms(1,2,5,6)]
  have l: "last_id st1 = song_id s1" and nf: "\<not> is_fetching st1" by simp_all
  from tick_tracking_calls[OF assms(3,4), of st1] l nf
  have "fetch_calls (state_of (tick p2 st1))
           = fetch_calls st1 + (if song_id s2 \<noteq> song_id s1 then 1 else 0)" by simp
  then show ?thesis by (simp add: song_id_def)
qed

theorem fetch_iff_song_id_differs_witness:
  "\<exists>st1. tick (example_poll (example_session ''Spotify.exe'' ''Song1'' ''Artist1'' 5) Network_error)
            (initial_state example_env) = Inr st1
       \<and> fetch_calls (state_of
            (tick (example_poll (example_session ''Spotify.exe'' ''Song2'' ''Artist1'' 5) Network_error) st1))
          = fetch_calls st1 + 1
       \<and> fetch_calls (state_of
            (tick (example_poll (example_session ''Spotify.exe'' ''Song1'' ''Artist1'' 5) Network_error) st1))
          = fetch_calls st1"
proof -
  let ?s1 = "example_session ''Spotify.exe'' ''Song1'' ''Artist1'' 5"
  let ?s2 = "example_session ''Spotify.exe'' ''Song2'' ''Artist1'' 5"
  let ?p1 = "example_poll ?s1 Network_error"
  let ?p2 = "example_poll ?s2 Network_error"
  have a1: "session ?p1 = Some ?s1" and a2: "session ?p2 = Some ?s2" by simp_all
  have sp1: "contains ''spotify'' (lower (source_app_user_model_id ?s1))"
    and sp2: "contains ''spotify'' (lower (source_app_user_model_id ?s2))"
    by (simp_all add: lower_spotify_exe)
  have nf: "\<not> is_fetching (initial_state example_env)" by (simp add: initial_state_def)
  obtain st1 where t: "tick ?p1 (initial_state example_env) = Inr st1"
    by (simp add: loop_defs)
  have d: "song_id ?s2 \<noteq> song_id ?s1" by (simp add: song_id_def)
  from fetch_iff_song_id_differs[OF a1 sp1 a2 sp2 nf t] d
  have "fetch_calls (state_of (tick ?p2 st1)) = fetch_calls st1 + 1" by simp
  moreover from fetch_iff_song_id_differs[OF a1 sp1 a1 sp1 nf t]
  have "fetch_calls (state_of (tick ?p1 st1)) = fetch_calls st1" by simp
  ultimately show ?thesis using t by blast
qed

text \<open>
  C6, as stated, fails for the emission of \<open>Searching...\<close>, which line 82 makes with no
  comparison: when the track changes twice while playback is paused, the loop emits
  \<open>Searching...\<close> twice in a row.
\<close>

theorem searching_repeated_counterexample:
  "emitted (state_of (run
      [example_poll (example_session ''Spotify.exe'' ''Song1'' ''Artist1'' 5) Network_error,
       example_poll (example_session ''Spotify.exe'' ''Song2'' ''Artist1'' 5) Network_error]
      (initial_state example_env))) ! 0 = ''Searching...''
   \<and> emitted (state_of (run
      [example_poll (example_session ''Spotify.exe'' ''Song1'' ''Artist1'' 5) Network_error,
       example_poll (example_session ''Spotify.exe'' ''Song2'' ''Artist1'' 5) Network_error]
      (initial_state example_env))) ! 1 = ''Searching...''"
  unfolding two_paused_tracks by simp

text \<open>
  C6, amended. In every execution of the poll loop from its initial state, complete or
  ended by an exception, two successive notifications carry equal text only when that
  text is \<open>Searching...\<close>: the placeholders and the lyric lines are emitted only when
  they differ from the displayed text, and \<open>Searching...\<close> is emitted at every fetch.
\<close>

theorem only_searching_repeats:
  "\<forall>i. Suc i < length (emitted (state_of (run ps (initial_state e))))
        \<and> emitted (state_of (run ps (initial_state e))) ! i
            = emitted (state_of (run ps (initial_state e))) ! Suc i
        \<longrightarrow> emitted (state_of (run ps (initial_state e))) ! i = ''Searching...''"
proof -
  have "trace_inv (initial_state e)" by (simp add: trace_inv_def initial_state_def)
  from trace_inv_run[OF this, of ps]
  have "successively repeat_ok (emitted (state_of (run ps (initial_state e))))" .
  from successively_nth[OF this] show ?thesis by (auto simp: repeat_ok_def)
qed

theorem only_searching_repeats_witness:
  "length (emitted (state_of (run
      [example_poll (example_session ''Spotify.exe'' ''Song1'' ''Artist1'' 5) Network_error,
       example_poll (example_session ''Spotify.exe'' ''Song2'' ''Artist1'' 5) Network_error]
      (initial_state example_env)))) = 2
   \<and> emitted (state_of (run
      [example_poll (example_session ''Spotify.exe'' ''Song1'' ''Artist1'' 5) Network_error,
       example_poll (example_session ''Spotify.exe'' ''Song2'' ''Artist1'' 5) Network_error]
      (initial_state example_env))) ! 0 = ''Searching...''"
proof -
  let ?tr = "emitted (state_of (run
      [example_poll (example_session ''Spotify.exe'' ''Song1'' ''Artist1'' 5) Network_error,
       example_poll (example_session ''Spotify.exe'' ''Song2'' ''Artist1'' 5) Network_error]
      (initial_state example_env)))"
  have l: "length ?tr = 2" and eq: "?tr ! 0 = ?tr ! Suc 0"
    unfolding two_paused_tracks by simp_all
  from l have "Suc 0 < length ?tr" by simp
  with eq only_searching_repeats[of "[example_poll (example_session ''Spotify.exe'' ''Song1'' ''Artist1'' 5) Network_error,
       example_poll (example_session ''Spotify.exe'' ''Song2'' ''Artist1'' 5) Network_error]" example_env]
  have "?tr ! 0 = ''Searching...''" by blast
  with l show ?thesis by blast
qed

text \<open>
  C10. In every state the loop reaches from its initial state, at a poll of a Spotify
  session whose track-change step raises nothing, the position check, and with it the
  active-line lookup, runs in a state where \<open>ts_list\<close> is the list of the timestamps of
  \<open>parsed_lyrics\<close>. The example after the theorem goes through the wrong-player
  branch, after which \<open>ts_list\<close> still holds a timestamp of the cleared document, and
  the next poll of Spotify installs both again.
\<close>

theorem ts_list_coherent_at_lookup:
  assumes "run ps (initial_state e) = Inr st"
    and "session p = Some s"
    and "contains ''spotify'' (lower (source_app_user_model_id s))"
    and "track_change p s st = Inr st1"
  shows "ts_list st1 = map fst (parsed_lyrics st1)
       \<and> tick p st = position_check p s st1
       \<and> (playback_status s = 4 \<longrightarrow>
            position_check p s st1 =
              (case active_line (map fst (parsed_lyrics st1)) (parsed_lyrics st1) (true_pos p s) of
                 Inl err \<Rightarrow> Inl (err, st1)
               | Inr new_lyric \<Rightarrow>
                   if new_lyric \<noteq> curr_text st1
                   then Inr ((emit new_lyric st1)\<lparr>curr_text := new_lyric\<rparr>) else Inr st1))"
proof -
  have i0: "\<not> is_fetching (initial_state e)"
    "last_id (initial_state e) \<noteq> [] \<longrightarrow>
       ts_list (initial_state e) = map fst (parsed_lyrics (initial_state e))"
    by (simp_all add: initial_state_def)
  from run_coherent[OF i0 assms(1)] have nf: "\<not> is_fetching st"
    and co: "last_id st \<noteq> [] \<longrightarrow> ts_list st = map fst (parsed_lyrics st)" by simp_all
  from track_change_coherent[OF nf co assms(4)]
  have c: "ts_list st1 = map fst (parsed_lyrics st1)" by simp
  have t: "tick p st = position_check p s st1"
    using assms(2,3,4) by (simp add: tick_def)
  from c t show ?thesis by (simp add: position_check_def)
qed

theorem ts_list_coherent_at_lookup_witness:
  "\<exists>st st1.
     run [example_poll (example_session ''Spotify.exe'' ''Song1'' ''Artist1'' 4)
            (Response 200 (Synced (Some ''[00:01.00]a''))),
          example_poll (example_session ''chrome.exe'' ''Video'' ''Someone'' 4) Network_error]
         (initial_state example_env) = Inr st
     \<and> ts_list st = [1] \<and> parsed_lyrics st = []
     \<and> track_change (example_poll (example_session ''Spotify.exe'' ''Song1'' ''Artist1'' 4) Network_error)
          (example_session ''Spotify.exe'' ''Song1'' ''Artist1'' 4) st = Inr st1
     \<and> ts_list st1 = map fst (parsed_lyrics st1) \<and> parsed_lyrics st1 = [(1, ''a'')]"
proof -
  let ?s = "example_session ''Spotify.exe'' ''Song1'' ''Artist1'' 4"
  let ?p = "example_poll ?s Network_error"
  let ?ps = "[example_poll ?s (Response 200 (Synced (Some ''[00:01.00]a''))),
          example_poll (example_session ''chrome.exe'' ''Video'' ''Someone'' 4) Network_error]"
  obtain st where r: "run ?ps (initial_state example_env) = Inr st"
    and ts: "ts_list st = [1]" and pl: "parsed_lyrics st = []"
    and li: "last_id st = []" and nf: "\<not> is_fetching st"
    and cf: "cache_files (env st) (cache_filepath ''Artist1'' ''Song1'')
               = Some (Text_file ''[00:01.00]a'')"
    by (simp add: loop_defs lower_chrome_exe parse_one_line true_pos_def total_seconds_def
        lookup_one_line write_text_def)
  obtain st1 where tc: "track_change ?p ?s st = Inr st1" and p1: "parsed_lyrics st1 = [(1, ''a'')]"
    using li nf cf by (simp add: track_change_def fetch_lyrics_def song_id_def Let_def emit_def
        parse_one_line)
  have a: "session ?p = Some ?s" by simp
  have sp: "contains ''spotify'' (lower (source_app_user_model_id ?s))"
    by (simp add: lower_spotify_exe)
  from ts_list_coherent_at_lookup[OF r a sp tc] have "ts_list st1 = map fst (parsed_lyrics st1)"
    by blast
  with r ts pl tc p1 show ?thesis by blast
qed

end
